theory Spec2Isabelle
  imports Main
begin

section \<open>Flying Circus: the actor runtime of brewberry/actors.py\<close>

text \<open>
  The module builds actors on gevent greenlets. The embedding keeps the module's own
  functions (\<open>spawn\<close>, the closure \<open>address\<close>, the loop \<open>actor_process\<close>, \<open>register\<close>, ...)
  as state transformers over an explicit system state, and models the part of gevent
  they rely on by its documented behaviour:
  \<^item> a greenlet is running, or ready with an exception value (\<open>None\<close> on success);
  \<^item> the hub keeps its callbacks in a queue and runs them first in, first out;
  \<^item> \<open>Greenlet.kill(exc)\<close> does nothing to a greenlet that is ready; otherwise it
    queues a callback on the hub that throws \<open>exc\<close> into the greenlet, and the caller
    waits until the hub has run it (anything queued earlier runs first); the throw
    ends a greenlet that is still running then, and wakes the caller;
  \<^item> \<open>link(cb)\<close> registers a callback run once the greenlet is ready (soon, when it
    already is); \<open>link_exception(cb)\<close> is the same but \<open>cb\<close> only runs when the greenlet
    was not successful; an exception raised by a callback stays in the callback;
  \<^item> \<open>Queue(n).put_nowait\<close> raises \<open>Full\<close> when the queue holds \<open>n\<close> items.
  A behaviour runs as one step of its actor, except that it stops where it waits for
  a kill. When an actor takes its next message is left to the scheduler: a schedule
  may let an actor with a message run at any time.
\<close>

subsection \<open>Values, exceptions, messages\<close>

type_synonym pid = nat

datatype exn =
    Killed | KilledByLink | UndeliveredMessage
  | TypeError | KeyError | AttributeError | Full | Exception string

text \<open>
  Python values that travel in messages. \<open>'f\<close> names the behaviour functions of the
  program, \<open>AddrV p\<close> is the address closure of actor \<open>p\<close>, \<open>QueueV q\<close> a gevent queue
  of the client, \<open>RemoveWhenDone n\<close> the closure \<open>remove_when_done\<close> that \<open>register\<close>
  builds for the name \<open>n\<close>.
\<close>

datatype 'f val =
    NoneV | IntV int | StrV string | FunV 'f | AddrV pid | ExcV exn
  | TupleV "'f val list" | QueueV nat | RemoveWhenDone string

type_synonym 'f kwargs = "(string \<times> 'f val) list"
type_synonym 'f msg = "nat \<times> 'f val list \<times> 'f kwargs"

definition MAX_QUEUE_SIZE :: nat where
  "MAX_QUEUE_SIZE = 1024"

text \<open>The control tokens are interned strings; \<open>Monitor in args\<close> compares by equality.\<close>

definition KillerJoke :: "'f val" where
  "KillerJoke = StrV ''__KillerJoke__''"

definition Monitor :: "'f val" where
  "Monitor = StrV ''__Monitor__''"

definition Link :: "'f val" where
  "Link = StrV ''__Link__''"

definition TrapLink :: "'f val" where
  "TrapLink = StrV ''__TrapLink__''"

definition ActorInfo :: "'f val" where
  "ActorInfo = StrV ''__ActorInfo__''"

subsection \<open>Greenlets, actors and the system state\<close>

datatype status = Running | Done "exn option"

text \<open>
  The closures handed to \<open>proc.link\<close> and \<open>link_exception\<close> in \<open>address\<close>:
  \<open>MonitorCb mon func\<close> is \<open>lambda dead_proc: mon(func, dead_proc.exception)\<close>,
  \<open>KillCb t\<close> is \<open>lambda p: t.kill(KilledByLink)\<close>, and \<open>TrapCb me a\<close> is
  \<open>lambda dead_proc: me._address(trap_exit=(address, dead_proc.exception))\<close>
  with \<open>a\<close> the actor of \<open>address\<close>. The last two are registered with \<open>link_exception\<close>.
\<close>

datatype 'f callback = MonitorCb "'f val" 'f | KillCb pid | TrapCb pid pid

text \<open>
  What a behaviour does when called: a sequence of calls on addresses and of puts on
  client queues, then a return (\<open>Some f\<close>: the next behaviour, \<open>None\<close>: a falsy value)
  or a raise. A call that does not fit the function's signature is
  \<open>([], Raise TypeError)\<close>.
\<close>

datatype 'f action = Send pid "'f val list" "'f kwargs" | QPut nat "'f val"

datatype 'f outcome = Return "'f option" | Raise exn

text \<open>
  \<open>waiting\<close> is set while the behaviour of the actor waits inside \<open>kill\<close>: it holds the
  message of the current round of the loop (with the arguments as passed to the
  behaviour) and what the behaviour still has to do.
\<close>

record 'f actor =
  func :: 'f
  next_func :: 'f
  mailbox :: "'f msg list"
  proc :: status
  links :: "'f callback list"
  waiting :: "('f msg \<times> 'f action list \<times> 'f outcome) option"

text \<open>
  The callbacks of the hub: \<open>Notify p\<close> runs the links of the dead greenlet \<open>p\<close>,
  \<open>Throw p e w\<close> is the callback of \<open>p.kill(e)\<close> with the waiting caller \<open>w\<close> (\<open>None\<close>:
  the caller is no actor).
\<close>

datatype hub = Notify pid | Throw pid exn "pid option"

record 'f sys =
  actors :: "pid \<Rightarrow> 'f actor"
  next_pid :: pid
  registry :: "string \<rightharpoonup> pid"
  pending :: "hub list"
  timers :: "(pid \<times> 'f msg) list"
  dropped :: "('f \<times> 'f val list \<times> 'f kwargs) list"
  queues :: "nat \<Rightarrow> 'f val list"
  calls :: "('f \<times> 'f val list) list"

text \<open>
  \<open>pending\<close> is the queue of the hub, oldest callback first,
  \<open>timers\<close> the \<open>gevent.spawn_later(0.01, mailbox.put_nowait, m)\<close> calls not yet fired,
  \<open>dropped\<close> what the logger recorded, \<open>queues\<close> the client's own gevent queues and
  \<open>calls\<close> the invocations of plain client functions used as callbacks.
\<close>

record 'f ActorInfoTuple =
  info_links :: "'f val list"
  mailbox_size :: nat
  monitored_by :: "'f val list"
  monitors :: "'f val list"
  running :: bool
  successful :: bool
  exception :: "exn option"
  exc_info :: "exn option"

datatype 'f ret = RetAddress pid | RetInfo "'f ActorInfoTuple"

definition upd_actor :: "pid \<Rightarrow> ('f actor \<Rightarrow> 'f actor) \<Rightarrow> 'f sys \<Rightarrow> 'f sys" where
  "upd_actor p f s = s\<lparr>actors := (actors s)(p := f (actors s p))\<rparr>"

subsection \<open>The gevent primitives\<close>

definition ready :: "status \<Rightarrow> bool" where
  "ready st = (st \<noteq> Running)"

definition proc_successful :: "status \<Rightarrow> bool" where
  "proc_successful st = (st = Done None)"

definition proc_exception :: "status \<Rightarrow> exn option" where
  "proc_exception st = (case st of Running \<Rightarrow> None | Done e \<Rightarrow> e)"

definition exc_val :: "status \<Rightarrow> 'f val" where
  "exc_val st = (case proc_exception st of None \<Rightarrow> NoneV | Some e \<Rightarrow> ExcV e)"

text \<open>The greenlet of \<open>p\<close> ends with result \<open>r\<close>; the hub will notify its links.\<close>

definition finish :: "pid \<Rightarrow> exn option \<Rightarrow> 'f sys \<Rightarrow> 'f sys" where
  "finish p r s =
     (if proc (actors s p) = Running
      then (upd_actor p (\<lambda>a. a\<lparr>proc := Done r\<rparr>) s)\<lparr>pending := pending s @ [Notify p]\<rparr>
      else s)"

text \<open>
  \<open>p.kill(e)\<close> called by \<open>me\<close>: nothing for a dead greenlet, else the throw is queued
  behind what the hub already holds.
\<close>

definition proc_kill :: "pid option \<Rightarrow> pid \<Rightarrow> exn \<Rightarrow> 'f sys \<Rightarrow> 'f sys" where
  "proc_kill me p e s =
     (if proc (actors s p) = Running then s\<lparr>pending := pending s @ [Throw p e me]\<rparr> else s)"

definition rawlink :: "pid \<Rightarrow> 'f callback \<Rightarrow> 'f sys \<Rightarrow> 'f sys" where
  "rawlink p cb s =
     (let s1 = upd_actor p (\<lambda>a. a\<lparr>links := links a @ [cb]\<rparr>) s
      in if ready (proc (actors s p)) then s1\<lparr>pending := pending s1 @ [Notify p]\<rparr> else s1)"

definition put_nowait :: "'f msg list \<Rightarrow> 'f msg \<Rightarrow> 'f msg list option" where
  "put_nowait q m = (if length q < MAX_QUEUE_SIZE then Some (q @ [m]) else None)"

subsection \<open>The address closure\<close>

definition actor_info_of :: "'f actor \<Rightarrow> 'f ActorInfoTuple" where
  "actor_info_of a =
     \<lparr>info_links = [], mailbox_size = length (mailbox a), monitored_by = [], monitors = [],
      running = (\<not> ready (proc a)), successful = proc_successful (proc a),
      exception = proc_exception (proc a), exc_info = proc_exception (proc a)\<rparr>"

text \<open>
  \<open>address me p args kwargs\<close> is the call \<open>address(*args, **kwargs)\<close> on the address of
  actor \<open>p\<close>, made from the greenlet of actor \<open>me\<close> (\<open>None\<close>: from a greenlet that is not
  a gevent \<open>Greenlet\<close>, such as the main program, which has no \<open>link_exception\<close>).
  The result is the exception raised or the value returned, and the state after.
  A call that kills a running actor waits for the hub: the state is the one in which
  the caller starts to wait, and the result is what the caller gets when the throw
  has run, the address, or \<open>Killed\<close> thrown into the caller that killed itself.
\<close>

definition address ::
  "pid option \<Rightarrow> pid \<Rightarrow> 'f val list \<Rightarrow> 'f kwargs \<Rightarrow> 'f sys \<Rightarrow> (exn + 'f ret) \<times> 'f sys" where
  "address me p args kwargs s =
     (if Monitor \<in> set args then
        (case map_of kwargs ''monitor'' of
           None \<Rightarrow> (Inl KeyError, s)
         | Some mon \<Rightarrow> (Inr (RetAddress p), rawlink p (MonitorCb mon (func (actors s p))) s))
      else if Link \<in> set args then
        (case me of
           None \<Rightarrow> (Inl AttributeError, s)
         | Some m \<Rightarrow> (Inr (RetAddress p), rawlink p (KillCb m) (rawlink m (KillCb p) s)))
      else if TrapLink \<in> set args then
        (case me of
           None \<Rightarrow> (Inl AttributeError, s)
         | Some m \<Rightarrow> (Inr (RetAddress p), rawlink p (TrapCb m p) (rawlink m (KillCb p) s)))
      else if ActorInfo \<in> set args then
        (Inr (RetInfo (actor_info_of (actors s p))), s)
      else if KillerJoke \<in> set args then
        (if me = Some p \<and> proc (actors s p) = Running then Inl Killed else Inr (RetAddress p),
         proc_kill me p Killed s)
      else
        (case put_nowait (mailbox (actors s p)) (0, args, kwargs) of
           None \<Rightarrow> (Inl UndeliveredMessage, s)
         | Some q \<Rightarrow> (Inr (RetAddress p), upd_actor p (\<lambda>a. a\<lparr>mailbox := q\<rparr>) s)))"

definition is_plain :: "'f val list \<Rightarrow> bool" where
  "is_plain args \<longleftrightarrow>
     Monitor \<notin> set args \<and> Link \<notin> set args \<and> TrapLink \<notin> set args \<and>
     ActorInfo \<notin> set args \<and> KillerJoke \<notin> set args"

text \<open>The calls that reach \<open>proc.kill\<close>.\<close>

definition is_kill :: "'f val list \<Rightarrow> bool" where
  "is_kill args \<longleftrightarrow>
     Monitor \<notin> set args \<and> Link \<notin> set args \<and> TrapLink \<notin> set args \<and>
     ActorInfo \<notin> set args \<and> KillerJoke \<in> set args"

text \<open>The module-level wrappers \<open>link\<close>, \<open>monitor\<close>, \<open>actor_info\<close> and \<open>kill\<close>.\<close>

definition link :: "pid option \<Rightarrow> pid \<Rightarrow> 'f sys \<Rightarrow> (exn + 'f ret) \<times> 'f sys" where
  "link me addr s = address me addr [Link] [] s"

definition monitor :: "pid option \<Rightarrow> pid \<Rightarrow> 'f val \<Rightarrow> 'f sys \<Rightarrow> (exn + 'f ret) \<times> 'f sys" where
  "monitor me addr mon s = address me addr [Monitor] [(''monitor'', mon)] s"

definition actor_info :: "pid option \<Rightarrow> pid \<Rightarrow> 'f sys \<Rightarrow> (exn + 'f ret) \<times> 'f sys" where
  "actor_info me addr s = address me addr [ActorInfo] [] s"

definition kill :: "pid option \<Rightarrow> pid \<Rightarrow> 'f sys \<Rightarrow> (exn + 'f ret) \<times> 'f sys" where
  "kill me actor s = address me actor [KillerJoke] [] s"

subsection \<open>Spawning\<close>

text \<open>
  \<open>spawn\<close> makes the mailbox and the greenlet of a new actor, whose pid is the next
  unused one, and returns \<open>address(*args, **kwargs)\<close>.
\<close>

definition spawn ::
  "pid option \<Rightarrow> 'f \<Rightarrow> 'f val list \<Rightarrow> 'f kwargs \<Rightarrow> 'f sys \<Rightarrow> (exn + 'f ret) \<times> 'f sys" where
  "spawn me f args kwargs s =
     (let p = next_pid s;
          s1 = s\<lparr>actors := (actors s)
                  (p := \<lparr>func = f, next_func = f, mailbox = [], proc = Running, links = [],
                         waiting = None\<rparr>),
                next_pid := Suc p\<rparr>
      in address me p args kwargs s1)"

text \<open>Calling what \<open>spawn\<close> returned: an info tuple is not callable.\<close>

definition call_ret ::
  "pid option \<Rightarrow> 'f ret \<Rightarrow> 'f val list \<Rightarrow> 'f kwargs \<Rightarrow> 'f sys \<Rightarrow> (exn + 'f ret) \<times> 'f sys" where
  "call_ret me r args kwargs s =
     (case r of RetAddress p \<Rightarrow> address me p args kwargs s | RetInfo i \<Rightarrow> (Inl TypeError, s))"

definition spawn_link ::
  "pid option \<Rightarrow> 'f \<Rightarrow> 'f val list \<Rightarrow> 'f kwargs \<Rightarrow> 'f sys \<Rightarrow> (exn + 'f ret) \<times> 'f sys" where
  "spawn_link me f args kwargs s =
     (case spawn me f [Link] [] s of
        (Inl e, s1) \<Rightarrow> (Inl e, s1)
      | (Inr r, s1) \<Rightarrow> call_ret me r args kwargs s1)"

definition spawn_trap_link ::
  "pid option \<Rightarrow> 'f \<Rightarrow> 'f val list \<Rightarrow> 'f kwargs \<Rightarrow> 'f sys \<Rightarrow> (exn + 'f ret) \<times> 'f sys" where
  "spawn_trap_link me f args kwargs s =
     (case spawn me f [TrapLink] [] s of
        (Inl e, s1) \<Rightarrow> (Inl e, s1)
      | (Inr r, s1) \<Rightarrow> call_ret me r args kwargs s1)"

subsection \<open>Running the link callbacks\<close>

text \<open>
  A callback calls a Python value from its own greenlet. An address is called as a
  plain function, \<open>remove_when_done\<close> deletes its name from the registry (a missing
  name is ignored), a client function is recorded in \<open>calls\<close>, anything else is not
  callable. Whatever the call raises is lost with the callback's greenlet. The
  callback of a link waits in \<open>kill\<close> in its own greenlet; nobody waits for it.
\<close>

fun call_value :: "'f val \<Rightarrow> 'f val list \<Rightarrow> 'f kwargs \<Rightarrow> 'f sys \<Rightarrow> 'f sys" where
  "call_value (AddrV p) args kwargs s = snd (address None p args kwargs s)"
| "call_value (RemoveWhenDone n) args kwargs s = s\<lparr>registry := (registry s)(n := None)\<rparr>"
| "call_value (FunV f) args kwargs s = s\<lparr>calls := calls s @ [(f, args)]\<rparr>"
| "call_value v args kwargs s = s"

fun run_callback :: "'f callback \<Rightarrow> pid \<Rightarrow> 'f sys \<Rightarrow> 'f sys" where
  "run_callback (MonitorCb mon f) dead s =
     call_value mon [FunV f, exc_val (proc (actors s dead))] [] s"
| "run_callback (KillCb t) dead s =
     (if proc_successful (proc (actors s dead)) then s else proc_kill None t KilledByLink s)"
| "run_callback (TrapCb me a) dead s =
     (if proc_successful (proc (actors s dead)) then s
      else call_value (AddrV me) []
             [(''trap_exit'', TupleV [AddrV a, exc_val (proc (actors s dead))])] s)"

definition notify_links :: "pid \<Rightarrow> 'f sys \<Rightarrow> 'f sys" where
  "notify_links p s =
     fold (\<lambda>cb. run_callback cb p) (links (actors s p))
       (upd_actor p (\<lambda>a. a\<lparr>links := []\<rparr>) s)"

text \<open>
  What the callback of a trap link sends when actor \<open>t\<close> died with exception \<open>e\<close>:
  the call \<open>me._address(trap_exit=(address, dead_proc.exception))\<close> has no positional
  argument, so the message is \<open>(0, (), {'trap_exit': (address, e)})\<close>.
\<close>

definition trap_exit_msg :: "pid \<Rightarrow> exn \<Rightarrow> 'f msg" where
  "trap_exit_msg t e = (0, [], [(''trap_exit'', TupleV [AddrV t, ExcV e])])"

subsection \<open>The actor loop\<close>

text \<open>\<open>with_self_address\<close> is the attribute the decorator sets.\<close>

record 'f program =
  with_self_address :: "'f \<Rightarrow> bool"
  body :: "'f \<Rightarrow> 'f val list \<Rightarrow> 'f kwargs \<Rightarrow> 'f action list \<times> 'f outcome"

text \<open>
  The actions run in order inside the greenlet of \<open>p\<close>. An exception of a call is the
  exception of the behaviour. At a call that kills a running actor the behaviour
  waits: \<open>Blocked\<close> holds the actions left.
\<close>

datatype 'f progress = Finished "'f outcome" | Blocked "'f action list"

fun perform :: "pid \<Rightarrow> 'f action list \<Rightarrow> 'f outcome \<Rightarrow> 'f sys \<Rightarrow> 'f progress \<times> 'f sys" where
  "perform p [] out s = (Finished out, s)"
| "perform p (Send t args kwargs # acts) out s =
     (if is_kill args \<and> proc (actors s t) = Running
      then (Blocked acts, snd (address (Some p) t args kwargs s))
      else (case address (Some p) t args kwargs s of
              (Inl e, s1) \<Rightarrow> (Finished (Raise e), s1)
            | (Inr r, s1) \<Rightarrow> perform p acts out s1))"
| "perform p (QPut q v # acts) out s =
     perform p acts out (s\<lparr>queues := (queues s)(q := queues s q @ [v])\<rparr>)"

text \<open>
  What the loop in \<open>actor_process\<close> does with the result of the call
  \<open>next_func(*args, **kwargs)\<close> for the message \<open>(retries, args, kwargs)\<close>, where \<open>args\<close>
  is the rebound variable of line 98.
\<close>

fun settle :: "pid \<Rightarrow> 'f msg \<Rightarrow> 'f outcome \<Rightarrow> 'f sys \<Rightarrow> 'f sys" where
  "settle p (retries, args, kwargs) (Raise e) s =
     (if e = TypeError then
        (if retries < 8
         then s\<lparr>timers := timers s @ [(p, (retries + 1, args, kwargs))]\<rparr>
         else s\<lparr>dropped := dropped s @ [(next_func (actors s p), args, kwargs)]\<rparr>)
      else finish p (Some e) s)"
| "settle p m (Return None) s = finish p None s"
| "settle p m (Return (Some f)) s = upd_actor p (\<lambda>a. a\<lparr>next_func := f\<rparr>) s"

text \<open>Running the behaviour, from its start or from where it waited.\<close>

definition continue_round ::
  "pid \<Rightarrow> 'f msg \<Rightarrow> 'f action list \<Rightarrow> 'f outcome \<Rightarrow> 'f sys \<Rightarrow> 'f sys" where
  "continue_round p m acts out s =
     (case perform p acts out s of
        (Blocked rest, s1) \<Rightarrow> upd_actor p (\<lambda>a. a\<lparr>waiting := Some (m, rest, out)\<rparr>) s1
      | (Finished res, s1) \<Rightarrow> settle p m res s1)"

text \<open>
  One round of the loop in \<open>actor_process\<close>: take the oldest message (an actor with an
  empty mailbox waits, a dead one and one that waits inside \<open>kill\<close> do nothing),
  prepend the address for a function with \<open>with_self_address\<close>, call \<open>next_func\<close> and
  look at the result.
\<close>

definition self_args :: "'f program \<Rightarrow> pid \<Rightarrow> 'f \<Rightarrow> 'f val list \<Rightarrow> 'f val list" where
  "self_args P p f args = (if with_self_address P f then AddrV p # args else args)"

definition actor_step :: "'f program \<Rightarrow> pid \<Rightarrow> 'f sys \<Rightarrow> 'f sys" where
  "actor_step P p s =
     (let a = actors s p in
      if proc a = Running \<and> waiting a = None
      then (case mailbox a of
              [] \<Rightarrow> s
            | (retries, args, kwargs) # rest \<Rightarrow>
                (let s1 = upd_actor p (\<lambda>a. a\<lparr>mailbox := rest\<rparr>) s;
                     args' = self_args P p (next_func a) args;
                     (acts, out) = body P (next_func a) args' kwargs
                 in continue_round p (retries, args', kwargs) acts out s1))
      else s)"

text \<open>
  The hub throws \<open>e\<close> into the greenlet of \<open>t\<close>. A greenlet that waits for a message
  (or has not started) ends with \<open>e\<close>. In a greenlet that waits inside its behaviour
  the behaviour raises \<open>e\<close>, which the loop treats like any exception of the call. A
  dead greenlet is left alone.
\<close>

definition throw_into :: "pid \<Rightarrow> exn \<Rightarrow> 'f sys \<Rightarrow> 'f sys" where
  "throw_into t e s =
     (if proc (actors s t) \<noteq> Running then s
      else (case waiting (actors s t) of
              None \<Rightarrow> finish t (Some e) s
            | Some (m, acts, out) \<Rightarrow>
                settle t m (Raise e) (upd_actor t (\<lambda>a. a\<lparr>waiting := None\<rparr>) s)))"

text \<open>After the throw the hub switches to the caller that waits in \<open>kill\<close>, if it is alive.\<close>

definition resume :: "pid option \<Rightarrow> 'f sys \<Rightarrow> 'f sys" where
  "resume w s =
     (case w of
        None \<Rightarrow> s
      | Some c \<Rightarrow>
          (if proc (actors s c) \<noteq> Running then s
           else (case waiting (actors s c) of
                   None \<Rightarrow> s
                 | Some (m, acts, out) \<Rightarrow>
                     continue_round c m acts out
                       (upd_actor c (\<lambda>a. a\<lparr>waiting := None\<rparr>) s))))"

fun run_entry :: "hub \<Rightarrow> 'f sys \<Rightarrow> 'f sys" where
  "run_entry (Notify p) s = notify_links p s"
| "run_entry (Throw t e w) s = resume w (throw_into t e s)"

text \<open>The delayed \<open>mailbox.put_nowait\<close> of a retry; \<open>Full\<close> is lost with its greenlet.\<close>

definition fire_timer :: "'f sys \<Rightarrow> 'f sys" where
  "fire_timer s =
     (case timers s of
        [] \<Rightarrow> s
      | (p, m) # ts \<Rightarrow>
          (case put_nowait (mailbox (actors s p)) m of
             None \<Rightarrow> s\<lparr>timers := ts\<rparr>
           | Some q \<Rightarrow> upd_actor p (\<lambda>a. a\<lparr>mailbox := q\<rparr>) (s\<lparr>timers := ts\<rparr>)))"

text \<open>
  The scheduler picks what runs next: a round of an actor's loop, the hub running
  the oldest callback of its queue, a timer, or a call on an address from outside.
\<close>

datatype 'f event =
    Step pid | Hub | Timer | Call "pid option" pid "'f val list" "'f kwargs"

fun exec :: "'f program \<Rightarrow> 'f event \<Rightarrow> 'f sys \<Rightarrow> 'f sys" where
  "exec P (Step p) s = actor_step P p s"
| "exec P Hub s =
     (case pending s of [] \<Rightarrow> s | h # hs \<Rightarrow> run_entry h (s\<lparr>pending := hs\<rparr>))"
| "exec P Timer s = fire_timer s"
| "exec P (Call me p args kwargs) s = snd (address me p args kwargs s)"

definition run :: "'f program \<Rightarrow> 'f event list \<Rightarrow> 'f sys \<Rightarrow> 'f sys" where
  "run P evs s = fold (exec P) evs s"

subsection \<open>The registry\<close>



definition registered :: "'f sys \<Rightarrow> (string \<rightharpoonup> pid)" where
  "registered s = registry s"

subsection \<open>What a monitor closure holds\<close>

text \<open>
  \<open>captures t f s\<close>: in state \<open>s\<close> the variable \<open>func\<close> of the \<open>spawn\<close> call that made
  actor \<open>t\<close> is \<open>f\<close>, and every closure \<open>lambda dead_proc: mon(func, dead_proc.exception)\<close>
  linked to the greenlet of \<open>t\<close> holds that \<open>f\<close>.
\<close>

definition captures :: "pid \<Rightarrow> 'f \<Rightarrow> 'f sys \<Rightarrow> bool" where
  "captures t f s \<longleftrightarrow>
     func (actors s t) = f \<and>
     (\<forall>cb \<in> set (links (actors s t)). case cb of MonitorCb mon g \<Rightarrow> g = f | _ \<Rightarrow> True)"

subsection \<open>The empty system\<close>

text \<open>
  Before the first \<open>spawn\<close>: nothing registered, nothing scheduled. The pids from
  \<open>next_pid\<close> on are not in use; \<open>spawn\<close> overwrites the entry it takes.
\<close>

definition initial :: "'f \<Rightarrow> 'f sys" where
  "initial f =
     \<lparr>actors = (\<lambda>p. \<lparr>func = f, next_func = f, mailbox = [], proc = Done None, links = [],
                     waiting = None\<rparr>),
      next_pid = 0, registry = Map.empty, pending = [], timers = [], dropped = [],
      queues = (\<lambda>q. []), calls = []\<rparr>"

text \<open>
  A program whose only function takes one positional argument and returns itself;
  one actor of it, spawned from the main program, and that actor after \<open>kill\<close> from
  the main program, when the hub has run the throw.
\<close>

definition repeater :: "nat program" where
  "repeater =
     \<lparr>with_self_address = (\<lambda>f. False),
      body = (\<lambda>f args kwargs.
         if length args = 1 \<and> kwargs = [] then ([], Return (Some f)) else ([], Raise TypeError))\<rparr>"

definition one_actor :: "nat sys" where
  "one_actor = snd (spawn None 0 [IntV 1] [] (initial 0))"

definition killed_actor :: "nat sys" where
  "killed_actor = exec repeater Hub (snd (kill None 0 one_actor))"

text \<open>
  The same actor in front of a full mailbox, and after it was killed there; a second
  actor spawned next to the first, also in front of the full mailbox.
\<close>

definition full_box :: "nat sys" where
  "full_box = upd_actor 0 (\<lambda>a. a\<lparr>mailbox := replicate 1024 (0, [IntV 1], [])\<rparr>) one_actor"

definition dead_full_box :: "nat sys" where
  "dead_full_box = exec repeater Hub (snd (kill None 0 full_box))"

definition two_actors :: "nat sys" where
  "two_actors = snd (spawn None 0 [IntV 1] [] one_actor)"

definition full_two :: "nat sys" where
  "full_two = snd (spawn None 0 [IntV 1] [] full_box)"

subsection \<open>The state machine of tests/test_actors_state_machine.py\<close>

text \<open>
  Binding the arguments of a call to the parameters of a \<open>def\<close> without defaults:
  positional arguments first, the remaining parameters by name. Too many arguments, an
  unknown or doubly given name and a missing parameter are the \<open>TypeError\<close> of a call
  that does not fit.
\<close>

definition bind_args :: "string list \<Rightarrow> 'f val list \<Rightarrow> 'f kwargs \<Rightarrow> 'f val list option" where
  "bind_args names args kwargs =
     (let rest = drop (length args) names in
      if length args \<le> length names \<and> (\<forall>k \<in> set (map fst kwargs). k \<in> set rest) \<and>
         (\<forall>n \<in> set rest. n \<in> set (map fst kwargs))
      then Some (args @ map (\<lambda>n. case map_of kwargs n of Some v \<Rightarrow> v | None \<Rightarrow> NoneV) rest)
      else None)"

text \<open>The decimal digits of \<open>'%d' % i\<close>.\<close>

fun digits :: "nat \<Rightarrow> string" where
  "digits n =
     (if n < 10 then [''0123456789'' ! n]
      else digits (n div 10) @ [''0123456789'' ! (n mod 10)])"

declare digits.simps [simp del]

definition str_int :: "int \<Rightarrow> string" where
  "str_int i = (if i < 0 then CHR ''-'' # digits (nat (- i)) else digits (nat i))"

text \<open>
  The functions of the test: \<open>ping\<close> and \<open>pong\<close> (decorated with \<open>with_self_address\<close>),
  \<open>my_monitor\<close>, and the closure \<open>catcher\<close> it returns, which keeps the queue \<open>q\<close>.
\<close>

datatype tfun = ping | pong | my_monitor | catcher "tfun val"

text \<open>
  The common body of \<open>ping\<close> and \<open>pong\<close> on bound parameters \<open>self, queue, i\<close>:
  \<open>queue.put(label % i)\<close>, return on \<open>i == 0\<close>, else \<open>self(queue, i - 1)\<close> and return the
  other function. A \<open>queue\<close> without \<open>put\<close> is an \<open>AttributeError\<close>, an \<open>i\<close> that is
  no number or a \<open>self\<close> that is no address a \<open>TypeError\<close>.
\<close>

definition ping_pong ::
  "string \<Rightarrow> tfun \<Rightarrow> tfun val list \<Rightarrow> tfun action list \<times> tfun outcome" where
  "ping_pong label other vs =
     (case vs of
        [slf, queue, i] \<Rightarrow>
          (case queue of
             QueueV q \<Rightarrow>
               (case i of
                  IntV n \<Rightarrow>
                    if n = 0 then ([QPut q (StrV (label @ str_int n))], Return None)
                    else (case slf of
                            AddrV a \<Rightarrow>
                              ([QPut q (StrV (label @ str_int n)),
                                Send a [QueueV q, IntV (n - 1)] []],
                               Return (Some other))
                          | _ \<Rightarrow> ([QPut q (StrV (label @ str_int n))], Raise TypeError))
                | _ \<Rightarrow> ([], Raise TypeError))
           | _ \<Rightarrow> ([], Raise AttributeError))
      | _ \<Rightarrow> ([], Raise TypeError))"

fun test_body :: "tfun \<Rightarrow> tfun val list \<Rightarrow> tfun kwargs \<Rightarrow> tfun action list \<times> tfun outcome" where
  "test_body ping args kwargs =
     (case bind_args [''self'', ''queue'', ''i''] args kwargs of
        None \<Rightarrow> ([], Raise TypeError)
      | Some vs \<Rightarrow> ping_pong ''ping '' pong vs)"
| "test_body pong args kwargs =
     (case bind_args [''self'', ''queue'', ''i''] args kwargs of
        None \<Rightarrow> ([], Raise TypeError)
      | Some vs \<Rightarrow> ping_pong ''pong '' ping vs)"
| "test_body my_monitor args kwargs =
     (case bind_args [''q''] args kwargs of
        None \<Rightarrow> ([], Raise TypeError)
      | Some vs \<Rightarrow> ([], Return (Some (catcher (hd vs)))))"
| "test_body (catcher q) args kwargs =
     (case bind_args [''f'', ''e''] args kwargs of
        None \<Rightarrow> ([], Raise TypeError)
      | Some vs \<Rightarrow>
          (case q of
             QueueV n \<Rightarrow> ([QPut n (TupleV vs)], Return None)
           | _ \<Rightarrow> ([], Raise AttributeError)))"

definition test_program :: "tfun program" where
  "test_program = \<lparr>with_self_address = (\<lambda>f. f = ping \<or> f = pong), body = test_body\<rparr>"

text \<open>
  \<open>test_state_machine\<close> up to its first \<open>response.get()\<close>: the state machine is actor 0,
  the monitor actor 1, \<open>response\<close> is queue 0 and \<open>monitor_response\<close> queue 1.
\<close>

definition test_state_machine :: "tfun sys" where
  "test_state_machine =
     snd (monitor None 0 (AddrV 1)
       (snd (spawn None my_monitor [QueueV 1] []
         (snd (spawn None ping [QueueV 0, IntV 5] [] (initial ping))))))"

text \<open>
  A schedule of the test: the state machine takes its six messages, the monitor
  actor its first, the hub notifies the links of the state machine, the monitor
  actor takes the notification.
\<close>

definition test_schedule :: "tfun event list" where
  "test_schedule = replicate 6 (Step 0) @ [Step 1, Hub, Step 1]"

text \<open>
  Another schedule for the state machine alone: after five messages somebody asks
  to monitor it with the plain function \<open>my_monitor\<close>, then it takes its last message.
\<close>

definition monitored_late :: "tfun event list" where
  "monitored_late =
     replicate 5 (Step 0) @ [Call None 0 [Monitor] [(''monitor'', FunV my_monitor)], Step 0]"

text \<open>An actor of \<open>ping\<close> that is sent one argument where \<open>ping\<close> wants two.\<close>

definition misfit :: "tfun sys" where
  "misfit = snd (spawn None ping [IntV 1] [] (initial ping))"

subsection \<open>Three client functions\<close>

text \<open>
  Small behaviours for the schedules below:
  \<^verbatim>\<open>
  def keep(queue, x):
      queue.put(x)
      return keep

  def quit(queue, x):
      queue.put(x)

  def linker(other):
      link(other)
      return quit
  \<close>
\<close>

datatype cfun = keep | quit | linker

fun client_body :: "cfun \<Rightarrow> cfun val list \<Rightarrow> cfun kwargs \<Rightarrow> cfun action list \<times> cfun outcome" where
  "client_body keep args kwargs =
     (case bind_args [''queue'', ''x''] args kwargs of
        None \<Rightarrow> ([], Raise TypeError)
      | Some vs \<Rightarrow>
          (case hd vs of
             QueueV n \<Rightarrow> ([QPut n (vs ! 1)], Return (Some keep))
           | _ \<Rightarrow> ([], Raise AttributeError)))"
| "client_body quit args kwargs =
     (case bind_args [''queue'', ''x''] args kwargs of
        None \<Rightarrow> ([], Raise TypeError)
      | Some vs \<Rightarrow>
          (case hd vs of
             QueueV n \<Rightarrow> ([QPut n (vs ! 1)], Return None)
           | _ \<Rightarrow> ([], Raise AttributeError)))"
| "client_body linker args kwargs =
     (case bind_args [''other''] args kwargs of
        None \<Rightarrow> ([], Raise TypeError)
      | Some vs \<Rightarrow>
          (case hd vs of
             AddrV a \<Rightarrow> ([Send a [Link] []], Return (Some quit))
           | _ \<Rightarrow> ([], Raise TypeError)))"

definition clients :: "cfun program" where
  "clients = \<lparr>with_self_address = (\<lambda>f. False), body = client_body\<rparr>"


text \<open>
  Actor 0 of \<open>keep\<close> and actor 1 of \<open>linker\<close>, which is given the address of actor 0.
  Both have taken their first message, so actor 1 has linked itself to actor 0 and
  goes on as \<open>quit\<close>; then the main program has sent actor 1 a message.
\<close>

definition linked_clients :: "cfun sys" where
  "linked_clients =
     run clients [Step 0, Step 1, Call None 1 [QueueV 0, IntV 5] []]
       (snd (spawn None linker [AddrV 0] []
         (snd (spawn None keep [QueueV 0, IntV 1] [] (initial keep)))))"

text \<open>
  Two actors where actor 0 has sent actor 1 both TrapLink and Link; and the pair in
  front of the full mailbox where actor 0 has sent TrapLink only.
\<close>

definition trapped_and_linked :: "nat sys" where
  "trapped_and_linked =
     snd (link (Some 0) 1 (snd (address (Some 0) 1 [TrapLink] [] two_actors)))"

definition trapped_full :: "nat sys" where
  "trapped_full = snd (address (Some 0) 1 [TrapLink] [] full_two)"

subsection \<open>Invariants of the hub queue\<close>

text \<open>
  \<open>hub_ok\<close>: the hub is asked to run the links of dead greenlets only. \<open>frame s s'\<close>
  relates a state to a later one in which the hub has not taken a callback from its
  queue: what was queued is still queued and new callbacks are behind it, a dead
  greenlet is as it was, a greenlet that died has its links queued, and links are
  queued for dead greenlets only.
\<close>

definition hub_ok :: "'f sys \<Rightarrow> bool" where
  "hub_ok s \<longleftrightarrow>
     (\<forall>h \<in> set (pending s).
        case h of Notify p \<Rightarrow> proc (actors s p) \<noteq> Running | Throw t e w \<Rightarrow> True)"

definition frame :: "'f sys \<Rightarrow> 'f sys \<Rightarrow> bool" where
  "frame s s' \<longleftrightarrow>
     (\<exists>hs. pending s' = pending s @ hs) \<and>
     (\<forall>q r. proc (actors s q) = Done r \<longrightarrow> proc (actors s' q) = Done r) \<and>
     (\<forall>q. proc (actors s q) = Running \<and> proc (actors s' q) \<noteq> Running
          \<longrightarrow> Notify q \<in> set (pending s')) \<and>
     (\<forall>q. Notify q \<in> set (pending s')
          \<longrightarrow> Notify q \<in> set (pending s) \<or> proc (actors s' q) \<noteq> Running)"


subsection \<open>The dispatch of the specification\<close>

text \<open>
  The control token a call handles according to the specification: the first of
  Monitor, Link, TrapLink, ActorInfo, KillerJoke that occurs in \<open>args\<close>; \<open>None\<close> when the
  call is an ordinary send.
\<close>

definition spec_dispatch :: "'f val list \<Rightarrow> 'f val option" where
  "spec_dispatch args = find (\<lambda>t. t \<in> set args) [Monitor, Link, TrapLink, ActorInfo, KillerJoke]"

section \<open>Properties\<close>

lemma tokens_distinct:
  "(Monitor :: 'f val) \<noteq> Link" "(Monitor :: 'f val) \<noteq> TrapLink"
  "(Monitor :: 'f val) \<noteq> ActorInfo" "(Monitor :: 'f val) \<noteq> KillerJoke"
  "(Link :: 'f val) \<noteq> TrapLink" "(Link :: 'f val) \<noteq> ActorInfo"
  "(Link :: 'f val) \<noteq> KillerJoke" "(TrapLink :: 'f val) \<noteq> ActorInfo"
  "(TrapLink :: 'f val) \<noteq> KillerJoke" "(ActorInfo :: 'f val) \<noteq> KillerJoke"
  by (simp_all add: Monitor_def Link_def TrapLink_def ActorInfo_def KillerJoke_def)

lemma is_plain_example: "is_plain [IntV 1, StrV ''hello'']"
  by (simp add: is_plain_def Monitor_def Link_def TrapLink_def ActorInfo_def KillerJoke_def)

lemma address_plain:
  "is_plain args \<Longrightarrow> address me p args kwargs s =
     (if length (mailbox (actors s p)) < 1024
      then (Inr (RetAddress p),
            upd_actor p (\<lambda>a. a\<lparr>mailbox := mailbox a @ [(0, args, kwargs)]\<rparr>) s)
      else (Inl UndeliveredMessage, s))"
  by (simp add: is_plain_def address_def put_nowait_def MAX_QUEUE_SIZE_def upd_actor_def)

subsection \<open>What the primitives change\<close>

lemma upd_actor_simps [simp]:
  "actors (upd_actor p f s) = (actors s)(p := f (actors s p))"
  "next_pid (upd_actor p f s) = next_pid s"
  "registry (upd_actor p f s) = registry s"
  "pending (upd_actor p f s) = pending s"
  "timers (upd_actor p f s) = timers s"
  "dropped (upd_actor p f s) = dropped s"
  "queues (upd_actor p f s) = queues s"
  "calls (upd_actor p f s) = calls s"
  by (simp_all add: upd_actor_def)

lemma finish_proc:
  "proc (actors (finish p r s) q) =
     (if q = p \<and> proc (actors s p) = Running then Done r else proc (actors s q))"
  by (simp add: finish_def)

lemma finish_simps [simp]:
  "registry (finish p r s) = registry s"
  "links (actors (finish p r s) q) = links (actors s q)"
  "func (actors (finish p r s) q) = func (actors s q)"
  "mailbox (actors (finish p r s) q) = mailbox (actors s q)"
  "calls (finish p r s) = calls s"
  "next_pid (finish p r s) = next_pid s"
  by (simp_all add: finish_def)

lemma finish_pending:
  "pending (finish p r s) =
     (if proc (actors s p) = Running then pending s @ [Notify p] else pending s)"
  by (simp add: finish_def)

lemma rawlink_simps [simp]:
  "proc (actors (rawlink p cb s) q) = proc (actors s q)"
  "registry (rawlink p cb s) = registry s"
  "links (actors (rawlink p cb s) q)
     = (if q = p then links (actors s p) @ [cb] else links (actors s q))"
  "func (actors (rawlink p cb s) q) = func (actors s q)"
  "mailbox (actors (rawlink p cb s) q) = mailbox (actors s q)"
  "calls (rawlink p cb s) = calls s"
  "next_pid (rawlink p cb s) = next_pid s"
  by (simp_all add: rawlink_def Let_def)

lemma rawlink_pending:
  "pending (rawlink p cb s) =
     (if proc (actors s p) = Running then pending s else pending s @ [Notify p])"
  by (simp add: rawlink_def Let_def ready_def)

lemma proc_kill_simps [simp]:
  "actors (proc_kill me p e s) = actors s"
  "registry (proc_kill me p e s) = registry s"
  "calls (proc_kill me p e s) = calls s"
  "next_pid (proc_kill me p e s) = next_pid s"
  by (simp_all add: proc_kill_def)

lemma proc_kill_pending:
  "pending (proc_kill me p e s) =
     (if proc (actors s p) = Running then pending s @ [Throw p e me] else pending s)"
  by (simp add: proc_kill_def)

lemma not_Running: "st \<noteq> Running \<longleftrightarrow> (\<exists>r. st = Done r)"
  by (cases st) simp_all

subsection \<open>Between two callbacks of the hub\<close>

lemma frame_refl: "frame s s"
  by (simp add: frame_def)

lemma frameD0: "frame s s' \<Longrightarrow> \<exists>hs. pending s' = pending s @ hs"
  by (simp add: frame_def)

lemma frameD1: "frame s s' \<Longrightarrow> set (pending s) \<subseteq> set (pending s')"
  using frameD0 [of s s'] by auto

lemma frameD2: "frame s s' \<Longrightarrow> proc (actors s q) = Done r \<Longrightarrow> proc (actors s' q) = Done r"
  by (simp add: frame_def)

lemma frameD3:
  "frame s s' \<Longrightarrow> proc (actors s q) = Running \<Longrightarrow> proc (actors s' q) \<noteq> Running
    \<Longrightarrow> Notify q \<in> set (pending s')"
  by (simp add: frame_def)

lemma frameD4:
  "frame s s' \<Longrightarrow> Notify q \<in> set (pending s')
    \<Longrightarrow> Notify q \<in> set (pending s) \<or> proc (actors s' q) \<noteq> Running"
  by (simp add: frame_def)

lemma frameI:
  assumes "\<exists>hs. pending s' = pending s @ hs"
    and "\<And>q r. proc (actors s q) = Done r \<Longrightarrow> proc (actors s' q) = Done r"
    and "\<And>q. proc (actors s q) = Running \<Longrightarrow> proc (actors s' q) \<noteq> Running
          \<Longrightarrow> Notify q \<in> set (pending s')"
    and "\<And>q. Notify q \<in> set (pending s')
          \<Longrightarrow> Notify q \<in> set (pending s) \<or> proc (actors s' q) \<noteq> Running"
  shows "frame s s'"
  using assms by (simp add: frame_def)

lemma frame_trans:
  assumes a: "frame s s'" and b: "frame s' s''"
  shows "frame s s''"
proof (rule frameI)
  from frameD0 [OF a] obtain hs where 1: "pending s' = pending s @ hs" ..
  from frameD0 [OF b] obtain hs' where 2: "pending s'' = pending s' @ hs'" ..
  have "pending s'' = pending s @ (hs @ hs')" by (simp add: 1 2)
  then show "\<exists>hs. pending s'' = pending s @ hs" ..
next
  fix q r assume "proc (actors s q) = Done r"
  then show "proc (actors s'' q) = Done r"
    by (intro frameD2 [OF b] frameD2 [OF a])
next
  fix q assume r: "proc (actors s q) = Running" and d: "proc (actors s'' q) \<noteq> Running"
  show "Notify q \<in> set (pending s'')"
  proof (cases "proc (actors s' q) = Running")
    case True
    then show ?thesis by (rule frameD3 [OF b _ d])
  next
    case False
    have "Notify q \<in> set (pending s')" by (rule frameD3 [OF a r False])
    then show ?thesis using frameD1 [OF b] by (rule subsetD [rotated])
  qed
next
  fix q assume n: "Notify q \<in> set (pending s'')"
  show "Notify q \<in> set (pending s) \<or> proc (actors s'' q) \<noteq> Running"
  proof (cases "proc (actors s'' q) = Running")
    case True
    with frameD4 [OF b n] have n': "Notify q \<in> set (pending s')" by simp
    have "proc (actors s' q) = Running"
    proof (cases "proc (actors s' q)")
      case (Done r)
      from frameD2 [OF b Done] True show ?thesis by simp
    qed simp
    with frameD4 [OF a n'] show ?thesis by simp
  qed simp
qed

lemma frame_same:
  "pending s' = pending s \<Longrightarrow> (\<And>q. proc (actors s' q) = proc (actors s q)) \<Longrightarrow> frame s s'"
  by (simp add: frame_def)

lemma frame_upd_actor: "(\<And>a. proc (f a) = proc a) \<Longrightarrow> frame s (upd_actor p f s)"
  by (rule frame_same) simp_all

lemma frame_finish: "frame s (finish p r s)"
  by (auto simp: frame_def finish_proc finish_pending)

lemma frame_rawlink: "frame s (rawlink p cb s)"
  by (auto simp: frame_def rawlink_pending)

lemma frame_proc_kill: "frame s (proc_kill me p e s)"
  by (auto simp: frame_def proc_kill_pending)

lemma frame_address: "frame s (snd (address me p args kwargs s))"
  by (auto simp: address_def put_nowait_def frame_refl frame_rawlink frame_proc_kill
      intro: frame_trans [OF frame_rawlink frame_rawlink] frame_upd_actor
      split: option.splits)

lemma frame_perform: "frame s (snd (perform p acts out s))"
proof (induction acts arbitrary: s)
  case Nil
  then show ?case by (simp add: frame_refl)
next
  case (Cons a acts)
  show ?case
  proof (cases a)
    case (Send t args kwargs)
    obtain res s1 where a: "address (Some p) t args kwargs s = (res, s1)"
      by (cases "address (Some p) t args kwargs s")
    have f: "frame s s1" using frame_address [of s "Some p" t args kwargs] a by simp
    show ?thesis
      using Send a f frame_trans [OF f Cons.IH [of s1]] by (simp split: sum.splits)
  next
    case (QPut n v)
    have "frame s (s\<lparr>queues := (queues s)(n := queues s n @ [v])\<rparr>)"
      by (rule frame_same) simp_all
    from frame_trans [OF this Cons.IH] show ?thesis using QPut by simp
  qed
qed

lemma frame_settle: "frame s (settle p m res s)"
proof (cases m)
  case (fields retries args kwargs)
  show ?thesis
  proof (cases res)
    case (Return x)
    then show ?thesis
      by (cases x) (simp_all add: frame_finish frame_upd_actor)
  next
    case (Raise e)
    have 1: "frame s (s\<lparr>timers := ts\<rparr>)" for ts by (rule frame_same) simp_all
    have 2: "frame s (s\<lparr>dropped := ds\<rparr>)" for ds by (rule frame_same) simp_all
    show ?thesis using Raise fields by (simp add: frame_finish 1 2)
  qed
qed

lemma frame_continue_round: "frame s (continue_round p m acts out s)"
proof -
  obtain pr s1 where pf: "perform p acts out s = (pr, s1)"
    by (cases "perform p acts out s")
  have f: "frame s s1" using frame_perform [of s p acts out] pf by simp
  show ?thesis
  proof (cases pr)
    case (Finished res)
    then show ?thesis
      using pf frame_trans [OF f frame_settle] by (simp add: continue_round_def)
  next
    case (Blocked rest)
    then show ?thesis
      using pf frame_trans [OF f frame_upd_actor] by (simp add: continue_round_def)
  qed
qed

lemma frame_actor_step: "frame s (actor_step P p s)"
proof (cases "proc (actors s p) = Running \<and> waiting (actors s p) = None \<and>
    mailbox (actors s p) \<noteq> []")
  case False
  then show ?thesis by (auto simp: actor_step_def Let_def frame_refl split: list.splits)
next
  case True
  then obtain retries args kwargs rest
    where mb: "mailbox (actors s p) = (retries, args, kwargs) # rest"
    by (cases "mailbox (actors s p)") auto
  have "frame s (upd_actor p (\<lambda>a. a\<lparr>mailbox := rest\<rparr>) s)"
    by (rule frame_upd_actor) simp
  from frame_trans [OF this frame_continue_round] show ?thesis
    using True mb by (simp add: actor_step_def Let_def split: prod.splits)
qed

lemma frame_call_value: "frame s (call_value v args kwargs s)"
proof (cases v)
  case (AddrV p)
  then show ?thesis by (simp add: frame_address)
next
  case (RemoveWhenDone n)
  have "frame s (s\<lparr>registry := (registry s)(n := None)\<rparr>)" by (rule frame_same) simp_all
  then show ?thesis using RemoveWhenDone by simp
next
  case (FunV f)
  have "frame s (s\<lparr>calls := calls s @ [(f, args)]\<rparr>)" by (rule frame_same) simp_all
  then show ?thesis using FunV by simp
qed (simp_all add: frame_refl)

lemma frame_run_callback: "frame s (run_callback cb d s)"
  by (cases cb) (simp_all add: frame_call_value frame_address frame_proc_kill frame_refl)

lemma frame_fold_callbacks: "frame s (fold (\<lambda>cb. run_callback cb d) cbs s)"
proof (induction cbs arbitrary: s)
  case Nil
  then show ?case by (simp add: frame_refl)
next
  case (Cons cb cbs)
  from frame_trans [OF frame_run_callback Cons.IH] show ?case by simp
qed

lemma frame_notify_links: "frame s (notify_links p s)"
  unfolding notify_links_def
  by (rule frame_trans [OF frame_upd_actor frame_fold_callbacks]) simp

lemma frame_fire_timer: "frame s (fire_timer s)"
proof -
  have 1: "frame s (s\<lparr>timers := ts\<rparr>)" for ts by (rule frame_same) simp_all
  have 2: "frame s (upd_actor p f (s\<lparr>timers := ts\<rparr>))" if "\<And>a. proc (f a) = proc a" for ts p f
    using that by (intro frame_same) simp_all
  show ?thesis
    by (simp add: fire_timer_def frame_refl 1 2 split: list.splits option.splits)
qed

lemma frame_throw_into: "frame s (throw_into t e s)"
proof -
  have "frame s (settle t m (Raise e) (upd_actor t (\<lambda>a. a\<lparr>waiting := None\<rparr>) s))" for m
    by (rule frame_trans [OF frame_upd_actor frame_settle]) simp
  then show ?thesis
    by (simp add: throw_into_def frame_refl frame_finish split: option.splits)
qed

lemma frame_resume: "frame s (resume w s)"
proof -
  have "frame s (continue_round c m acts out (upd_actor c (\<lambda>a. a\<lparr>waiting := None\<rparr>) s))"
    for c m acts out
    by (rule frame_trans [OF frame_upd_actor frame_continue_round]) simp
  then show ?thesis
    by (simp add: resume_def frame_refl split: option.splits)
qed

lemma frame_run_entry: "frame s (run_entry h s)"
  by (cases h) (simp_all add: frame_notify_links frame_trans [OF frame_throw_into frame_resume])

lemma exec_frame: "ev \<noteq> Hub \<Longrightarrow> frame s (exec P ev s)"
  by (cases ev) (simp_all add: frame_actor_step frame_fire_timer frame_address)

lemma exec_Hub_frame: "pending s = h # hs \<Longrightarrow> frame (s\<lparr>pending := hs\<rparr>) (exec P Hub s)"
  by (simp add: frame_run_entry)


lemma run_Nil [simp]: "run P [] s = s"
  by (simp add: run_def)

lemma run_Cons [simp]: "run P (ev # evs) s = run P evs (exec P ev s)"
  by (simp add: run_def)

lemma run_append: "run P (evs @ evs') s = run P evs' (run P evs s)"
  by (simp add: run_def)


lemma hub_okI:
  "(\<And>p. Notify p \<in> set (pending s) \<Longrightarrow> proc (actors s p) \<noteq> Running) \<Longrightarrow> hub_ok s"
  unfolding hub_ok_def by (auto split: hub.splits)

lemma hub_okD: "hub_ok s \<Longrightarrow> Notify p \<in> set (pending s) \<Longrightarrow> proc (actors s p) \<noteq> Running"
  unfolding hub_ok_def by (auto split: hub.splits)

lemma hub_ok_frame:
  assumes h: "hub_ok s" and f: "frame s s'"
  shows "hub_ok s'"
proof (rule hub_okI)
  fix p assume "Notify p \<in> set (pending s')"
  from frameD4 [OF f this] show "proc (actors s' p) \<noteq> Running"
  proof
    assume "Notify p \<in> set (pending s)"
    from hub_okD [OF h this] obtain r where "proc (actors s p) = Done r"
      by (auto simp: not_Running)
    from frameD2 [OF f this] show ?thesis by simp
  qed
qed

lemma hub_ok_pop:
  assumes h: "hub_ok s" and p: "pending s = x # xs"
  shows "hub_ok (s\<lparr>pending := xs\<rparr>)"
proof (rule hub_okI)
  fix q assume "Notify q \<in> set (pending (s\<lparr>pending := xs\<rparr>))"
  then have "Notify q \<in> set (pending s)" using p by simp
  from hub_okD [OF h this] show "proc (actors (s\<lparr>pending := xs\<rparr>) q) \<noteq> Running" by simp
qed

lemma hub_ok_exec:
  assumes h: "hub_ok s"
  shows "hub_ok (exec P ev s)"
proof (cases "ev = Hub")
  case False
  from hub_ok_frame [OF h exec_frame [OF False]] show ?thesis .
next
  case True
  show ?thesis
  proof (cases "pending s")
    case Nil
    then show ?thesis using True h by simp
  next
    case (Cons x xs)
    from hub_ok_frame [OF hub_ok_pop [OF h Cons] exec_Hub_frame [OF Cons]]
    show ?thesis using True by simp
  qed
qed

lemma hub_ok_run: "hub_ok s \<Longrightarrow> hub_ok (run P evs s)"
  by (induction evs arbitrary: s) (simp_all add: hub_ok_exec)

subsection \<open>Sending to a bounded mailbox\<close>

text \<open>
  C4. A call without control token appends \<open>(0, args, kwargs)\<close> to the mailbox of the
  actor when the mailbox holds fewer than 1024 messages and returns the address; on a
  mailbox with 1024 messages it raises \<open>UndeliveredMessage\<close> and leaves the whole
  system, the actor's behaviour and mailbox included, as it was. The call is a single
  step of the caller in both cases.
\<close>

theorem plain_send_bounded:
  assumes "is_plain args"
  shows "(length (mailbox (actors s p)) < 1024 \<longrightarrow>
            address me p args kwargs s =
              (Inr (RetAddress p),
               upd_actor p (\<lambda>a. a\<lparr>mailbox := mailbox a @ [(0, args, kwargs)]\<rparr>) s))
       \<and> (1024 \<le> length (mailbox (actors s p)) \<longrightarrow>
            address me p args kwargs s = (Inl UndeliveredMessage, s))"
  using assms by (simp add: address_plain)

theorem plain_send_bounded_witness:
  "is_plain [IntV 1, StrV ''hello'' :: nat val] \<and>
   address None 0 [IntV 1, StrV ''hello''] [] (initial (0::nat)) =
     (Inr (RetAddress 0),
      upd_actor 0 (\<lambda>a. a\<lparr>mailbox := [(0, [IntV 1, StrV ''hello''], [])]\<rparr>) (initial 0)) \<and>
   address None 0 [IntV 1, StrV ''hello''] [] full_box = (Inl UndeliveredMessage, full_box)"
  using plain_send_bounded [OF is_plain_example, of "initial (0::nat)" 0 None "[]"]
        plain_send_bounded [OF is_plain_example, of full_box 0 None "[]"]
  by (simp add: is_plain_example initial_def full_box_def upd_actor_def)


subsection \<open>The registry\<close>







subsection \<open>Retrying a message that does not fit\<close>

lemma actor_step_mismatch:
  assumes "proc (actors s p) = Running" and "waiting (actors s p) = None"
    and "mailbox (actors s p) = (retries, args, kwargs) # rest"
    and "body P (next_func (actors s p)) (self_args P p (next_func (actors s p)) args) kwargs
           = ([], Raise TypeError)"
  shows "actor_step P p s =
     (if retries < 8
      then (upd_actor p (\<lambda>a. a\<lparr>mailbox := rest\<rparr>) s)
             \<lparr>timers := timers s @
                [(p, (retries + 1, self_args P p (next_func (actors s p)) args, kwargs))]\<rparr>
      else (upd_actor p (\<lambda>a. a\<lparr>mailbox := rest\<rparr>) s)
             \<lparr>dropped := dropped s @
                [(next_func (actors s p), self_args P p (next_func (actors s p)) args,
                  kwargs)]\<rparr>)"
  using assms by (simp add: actor_step_def continue_round_def Let_def)

text \<open>
  C3. The loop does retry and then drop a message that raises \<open>TypeError\<close>, and keeps
  the behaviour, but the message it queues again is not the one it took: for a
  function with \<open>with_self_address\<close> the address was already prepended. The actor of
  \<open>ping\<close> that takes \<open>(0, (1,), {})\<close> queues \<open>(1, (address, 1), {})\<close>; the next
  round calls \<open>ping(address, address, 1)\<close>, which fits the signature, and the actor
  ends with the \<open>AttributeError\<close> of \<open>address.put\<close>.
\<close>

theorem retry_prepends_address:
  "mailbox (actors misfit 0) = [(0, [IntV 1], [])] \<and>
   timers (actor_step test_program 0 misfit) = [(0, (1, [AddrV 0, IntV 1], []))] \<and>
   timers (actor_step test_program 0 misfit) \<noteq> [(0, (1, [IntV 1], []))] \<and>
   mailbox (actors (run test_program [Step 0, Timer] misfit) 0)
     = [(1, [AddrV 0, IntV 1], [])] \<and>
   proc (actors (run test_program [Step 0, Timer, Step 0] misfit) 0)
     = Done (Some AttributeError)"
  by code_simp

subsection \<open>The ping-pong state machine\<close>

text \<open>
  C9 (as amended). Started as \<open>ping(q, 5)\<close>, the state machine puts \<open>ping 5\<close>, \<open>pong 4\<close>,
  \<open>ping 3\<close>, \<open>pong 2\<close>, \<open>ping 1\<close> on the queue with its first five messages and is then
  still running; the sixth message, with counter 0, puts \<open>pong 0\<close> on the queue before
  the actor ends normally. The monitor actor then puts \<open>(ping, None)\<close> on its queue and
  ends normally too.
\<close>

theorem state_machine_chain:
  "queues (run test_program (replicate 5 (Step 0)) test_state_machine) 0 =
     [StrV ''ping 5'', StrV ''pong 4'', StrV ''ping 3'', StrV ''pong 2'', StrV ''ping 1''] \<and>
   proc (actors (run test_program (replicate 5 (Step 0)) test_state_machine) 0) = Running \<and>
   queues (run test_program (replicate 6 (Step 0)) test_state_machine) 0 =
     [StrV ''ping 5'', StrV ''pong 4'', StrV ''ping 3'', StrV ''pong 2'', StrV ''ping 1'',
      StrV ''pong 0''] \<and>
   proc (actors (run test_program (replicate 6 (Step 0)) test_state_machine) 0) = Done None \<and>
   queues (run test_program test_schedule test_state_machine) 0 =
     [StrV ''ping 5'', StrV ''pong 4'', StrV ''ping 3'', StrV ''pong 2'', StrV ''ping 1'',
      StrV ''pong 0''] \<and>
   queues (run test_program test_schedule test_state_machine) 1 = [TupleV [FunV ping, NoneV]] \<and>
   proc (actors (run test_program test_schedule test_state_machine) 1) = Done None"
  by code_simp

text \<open>
  The claim as stated fails: when the state machine has ended, the queue does not
  hold exactly the five strings up to \<open>ping 1\<close>.
\<close>

theorem state_machine_counterexample:
  "proc (actors (run test_program (replicate 6 (Step 0)) test_state_machine) 0) = Done None \<and>
   queues (run test_program (replicate 6 (Step 0)) test_state_machine) 0 \<noteq>
     [StrV ''ping 5'', StrV ''pong 4'', StrV ''ping 3'', StrV ''pong 2'', StrV ''ping 1'']"
  by code_simp


subsection \<open>Monitors are called with the spawned function\<close>

lemma is_plain_callback_args: "is_plain [FunV f, exc_val st]"
  by (auto simp: is_plain_def exc_val_def Monitor_def Link_def TrapLink_def ActorInfo_def
      KillerJoke_def split: option.splits)

lemma is_plain_Nil: "is_plain []"
  by (simp add: is_plain_def)

lemma captures_same: "actors s' = actors s \<Longrightarrow> captures t f s \<Longrightarrow> captures t f s'"
  by (simp add: captures_def)

lemma captures_upd:
  "captures t f s \<Longrightarrow> (\<And>a. func (g a) = func a) \<Longrightarrow> (\<And>a. set (links (g a)) \<subseteq> set (links a))
    \<Longrightarrow> captures t f (upd_actor p g s)"
  unfolding captures_def by (auto simp: subset_iff)

lemma finish_captures: "captures t f s \<Longrightarrow> captures t f (finish p r s)"
  by (simp add: captures_def)

lemma proc_kill_captures: "captures t f s \<Longrightarrow> captures t f (proc_kill me p e s)"
  by (simp add: captures_def)

lemma address_captures:
  "captures t f s \<Longrightarrow> captures t f (snd (address me p args kwargs s))"
  by (auto simp: captures_def address_def put_nowait_def
      split: option.splits if_splits)

lemma perform_captures:
  "captures t f s \<Longrightarrow> captures t f (snd (perform p acts out s))"
proof (induction acts arbitrary: s)
  case Nil
  then show ?case by simp
next
  case (Cons a acts)
  show ?case
  proof (cases a)
    case (Send q args kwargs)
    obtain res s1 where a: "address (Some p) q args kwargs s = (res, s1)"
      by (cases "address (Some p) q args kwargs s")
    have c: "captures t f s1"
      using address_captures [OF Cons.prems, of "Some p" q args kwargs] a by simp
    show ?thesis
      using Send a c Cons.IH [OF c] by (simp split: sum.splits)
  next
    case (QPut n v)
    have "captures t f (s\<lparr>queues := (queues s)(n := queues s n @ [v])\<rparr>)"
      using Cons.prems by (simp add: captures_def)
    from Cons.IH [OF this] show ?thesis using QPut by simp
  qed
qed

lemma settle_captures: "captures t f s \<Longrightarrow> captures t f (settle p m res s)"
proof (cases m)
  case (fields retries args kwargs)
  assume c: "captures t f s"
  show ?thesis
  proof (cases res)
    case (Return x)
    then show ?thesis using c by (cases x) (simp_all add: finish_captures captures_upd)
  next
    case (Raise e)
    have 1: "captures t f (s\<lparr>timers := ts\<rparr>)" for ts using c by (simp add: captures_def)
    have 2: "captures t f (s\<lparr>dropped := ds\<rparr>)" for ds using c by (simp add: captures_def)
    show ?thesis using Raise fields c by (simp add: finish_captures 1 2)
  qed
qed

lemma continue_round_captures:
  assumes c: "captures t f s"
  shows "captures t f (continue_round p m acts out s)"
proof -
  obtain pr s1 where pf: "perform p acts out s = (pr, s1)"
    by (cases "perform p acts out s")
  have c1: "captures t f s1" using perform_captures [OF c, of p acts out] pf by simp
  show ?thesis
  proof (cases pr)
    case (Finished res)
    then show ?thesis using pf settle_captures [OF c1] by (simp add: continue_round_def)
  next
    case (Blocked rest)
    then show ?thesis using pf captures_upd [OF c1] by (simp add: continue_round_def)
  qed
qed

lemma actor_step_captures:
  assumes c: "captures t f s"
  shows "captures t f (actor_step P p s)"
proof (cases "proc (actors s p) = Running \<and> waiting (actors s p) = None \<and>
    mailbox (actors s p) \<noteq> []")
  case False
  then show ?thesis using c by (auto simp: actor_step_def Let_def split: list.splits)
next
  case True
  then obtain retries args kwargs rest
    where mb: "mailbox (actors s p) = (retries, args, kwargs) # rest"
    by (cases "mailbox (actors s p)") auto
  have "captures t f (upd_actor p (\<lambda>a. a\<lparr>mailbox := rest\<rparr>) s)"
    using c by (rule captures_upd) simp_all
  from continue_round_captures [OF this] show ?thesis
    using True mb by (simp add: actor_step_def Let_def split: prod.splits)
qed

lemma call_value_captures:
  "captures t f s \<Longrightarrow> captures t f (call_value v args kwargs s)"
  by (cases v) (simp_all add: address_captures, simp_all add: captures_def)

lemma run_callback_captures:
  assumes "captures t f s"
  shows "captures t f (run_callback cb d s)"
proof (cases cb)
  case (MonitorCb mon g)
  then show ?thesis using assms by (simp add: call_value_captures)
next
  case (KillCb q)
  then show ?thesis using assms by (simp add: proc_kill_captures)
next
  case (TrapCb m a)
  then show ?thesis using assms by (simp add: address_captures)
qed

lemma fold_callbacks_captures:
  "captures t f s \<Longrightarrow> captures t f (fold (\<lambda>cb. run_callback cb d) cbs s)"
  by (induction cbs arbitrary: s) (simp_all add: run_callback_captures)

lemma notify_links_captures:
  "captures t f s \<Longrightarrow> captures t f (notify_links p s)"
  unfolding notify_links_def by (intro fold_callbacks_captures captures_upd) simp_all

lemma fire_timer_captures:
  "captures t f s \<Longrightarrow> captures t f (fire_timer s)"
  by (auto simp: fire_timer_def captures_def split: list.splits option.splits)

lemma throw_into_captures:
  assumes c: "captures t f s"
  shows "captures t f (throw_into p e s)"
proof -
  have "captures t f (settle p m (Raise e) (upd_actor p (\<lambda>a. a\<lparr>waiting := None\<rparr>) s))" for m
    by (intro settle_captures captures_upd c) simp_all
  then show ?thesis
    using c by (simp add: throw_into_def finish_captures split: option.splits)
qed

lemma resume_captures:
  assumes c: "captures t f s"
  shows "captures t f (resume w s)"
proof -
  have "captures t f (continue_round p m acts out (upd_actor p (\<lambda>a. a\<lparr>waiting := None\<rparr>) s))"
    for p m acts out
    by (intro continue_round_captures captures_upd c) simp_all
  then show ?thesis
    using c by (simp add: resume_def split: option.splits)
qed

lemma run_entry_captures: "captures t f s \<Longrightarrow> captures t f (run_entry h s)"
  by (cases h) (simp_all add: notify_links_captures resume_captures throw_into_captures)

lemma exec_captures:
  "captures t f s \<Longrightarrow> captures t f (exec P ev s)"
proof (cases ev)
  case Hub
  assume c: "captures t f s"
  show ?thesis
  proof (cases "pending s")
    case Nil
    then show ?thesis using Hub c by simp
  next
    case (Cons h hs)
    have "captures t f (s\<lparr>pending := hs\<rparr>)" using c by (simp add: captures_def)
    then show ?thesis using Hub Cons by (simp add: run_entry_captures)
  qed
qed (simp_all add: actor_step_captures fire_timer_captures address_captures)

lemma run_captures:
  "captures t f s \<Longrightarrow> captures t f (run P evs s)"
  unfolding run_def by (induction evs arbitrary: s) (simp_all add: exec_captures)

lemma spawn_captures: "captures (next_pid s) f (snd (spawn me f args kwargs s))"
  unfolding spawn_def Let_def by (rule address_captures) (simp add: captures_def)

lemma call_value_calls:
  "is_plain args \<Longrightarrow>
   \<exists>k. calls (call_value v args kwargs s) = calls s @ k \<and> (\<forall>c \<in> set k. snd c = args)"
  by (cases v) (simp_all add: address_plain)

lemma run_callback_calls:
  assumes "case cb of MonitorCb mon g \<Rightarrow> g = f | _ \<Rightarrow> True"
  shows "\<exists>k. calls (run_callback cb d s) = calls s @ k \<and>
             (\<forall>c \<in> set k. \<exists>x. snd c = [FunV f, x])"
proof (cases cb)
  case (MonitorCb mon g)
  then have g: "g = f" using assms by simp
  obtain k where "calls (call_value mon [FunV f, exc_val (proc (actors s d))] [] s) = calls s @ k"
    "\<forall>c \<in> set k. snd c = [FunV f, exc_val (proc (actors s d))]"
    using call_value_calls [OF is_plain_callback_args [of f "proc (actors s d)"],
        where v = mon and kwargs = "[]" and s = s]
    by blast
  then show ?thesis using MonitorCb g by auto
next
  case (KillCb q)
  then show ?thesis by simp
next
  case (TrapCb m a)
  then show ?thesis by (simp add: address_plain is_plain_Nil)
qed

lemma fold_callbacks_calls:
  assumes "\<forall>cb \<in> set cbs. case cb of MonitorCb mon g \<Rightarrow> g = f | _ \<Rightarrow> True"
  shows "\<exists>k. calls (fold (\<lambda>cb. run_callback cb d) cbs s) = calls s @ k \<and>
             (\<forall>c \<in> set k. \<exists>x. snd c = [FunV f, x])"
  using assms
proof (induction cbs arbitrary: s)
  case Nil
  then show ?case by simp
next
  case (Cons cb cbs)
  obtain k1 where 1: "calls (run_callback cb d s) = calls s @ k1"
    "\<forall>c \<in> set k1. \<exists>x. snd c = [FunV f, x]"
    using run_callback_calls [where cb = cb and f = f and d = d and s = s] Cons.prems by auto
  obtain k2 where 2: "calls (fold (\<lambda>cb. run_callback cb d) cbs (run_callback cb d s))
      = calls (run_callback cb d s) @ k2" "\<forall>c \<in> set k2. \<exists>x. snd c = [FunV f, x]"
    using Cons.IH [of "run_callback cb d s"] Cons.prems by auto
  show ?case
    using 1 2 by (intro exI [of _ "k1 @ k2"]) auto
qed

lemma notify_links_calls:
  assumes "captures t f s"
  shows "\<exists>k. calls (notify_links t s) = calls s @ k \<and> (\<forall>c \<in> set k. \<exists>x. snd c = [FunV f, x])"
proof -
  have "\<forall>cb \<in> set (links (actors s t)). case cb of MonitorCb mon g \<Rightarrow> g = f | _ \<Rightarrow> True"
    using assms by (simp add: captures_def)
  from fold_callbacks_calls [OF this, where d = t and s = "upd_actor t (\<lambda>a. a\<lparr>links := []\<rparr>) s"]
  show ?thesis by (simp add: notify_links_def)
qed

text \<open>
  C10. Let actor \<open>t\<close> be spawned with the function \<open>f\<close>. Whatever runs afterwards
  (rounds of any actor's loop, which change \<open>next_func\<close>, the hub, timers, calls on any
  address with any token), the \<open>func\<close> of \<open>t\<close> is still \<open>f\<close> and every monitor closure
  linked to \<open>t\<close> holds \<open>f\<close>: when it runs it calls the monitor with \<open>f\<close> as first
  argument, and every call of a client function that the notification of the links
  of \<open>t\<close> records has \<open>f\<close> as its first argument. The current behaviour is never
  passed.
\<close>

theorem monitor_called_with_spawned_function:
  "captures (next_pid s) f (run P evs (snd (spawn me f args kwargs s))) \<and>
   (\<forall>mon g s'. MonitorCb mon g
        \<in> set (links (actors (run P evs (snd (spawn me f args kwargs s))) (next_pid s))) \<longrightarrow>
      run_callback (MonitorCb mon g) (next_pid s) s'
        = call_value mon [FunV f, exc_val (proc (actors s' (next_pid s)))] [] s') \<and>
   (\<exists>k. calls (notify_links (next_pid s) (run P evs (snd (spawn me f args kwargs s))))
          = calls (run P evs (snd (spawn me f args kwargs s))) @ k \<and>
        (\<forall>c \<in> set k. \<exists>x. snd c = [FunV f, x]))"
proof -
  let ?s = "run P evs (snd (spawn me f args kwargs s))"
  have c: "captures (next_pid s) f ?s"
    by (intro run_captures spawn_captures)
  have "g = f" if "MonitorCb mon g \<in> set (links (actors ?s (next_pid s)))" for mon g
    using c that by (auto simp: captures_def)
  then show ?thesis
    using c notify_links_calls [OF c] by auto
qed

theorem monitor_called_with_spawned_function_witness:
  "next_func (actors (run test_program monitored_late
      (snd (spawn None ping [QueueV 0, IntV 5] [] (initial ping)))) 0) = pong \<and>
   captures 0 ping (run test_program monitored_late
      (snd (spawn None ping [QueueV 0, IntV 5] [] (initial ping)))) \<and>
   links (actors (run test_program monitored_late
      (snd (spawn None ping [QueueV 0, IntV 5] [] (initial ping)))) 0)
     = [MonitorCb (FunV my_monitor) ping] \<and>
   calls (notify_links 0 (run test_program monitored_late
      (snd (spawn None ping [QueueV 0, IntV 5] [] (initial ping)))))
     = [(my_monitor, [FunV ping, NoneV])]"
proof -
  let ?s = "run test_program monitored_late
      (snd (spawn None ping [QueueV 0, IntV 5] [] (initial ping)))"
  have n: "next_pid (initial ping) = 0" by (simp add: initial_def)
  have 1: "next_func (actors ?s 0) = pong" by code_simp
  have 2: "links (actors ?s 0) = [MonitorCb (FunV my_monitor) ping]" by code_simp
  have 3: "calls (notify_links 0 ?s) = [(my_monitor, [FunV ping, NoneV])]" by code_simp
  have "captures 0 ping ?s"
    using monitor_called_with_spawned_function
      [of "initial ping" ping test_program monitored_late None "[QueueV 0, IntV 5]" "[]"]
    by (simp add: n)
  then show ?thesis using 1 2 3 by simp
qed

subsection \<open>Dispatch on control tokens\<close>

lemma spec_dispatch_cases:
  "spec_dispatch args =
     (if Monitor \<in> set args then Some Monitor
      else if Link \<in> set args then Some Link
      else if TrapLink \<in> set args then Some TrapLink
      else if ActorInfo \<in> set args then Some ActorInfo
      else if KillerJoke \<in> set args then Some KillerJoke
      else None)"
  by (simp add: spec_dispatch_def)

lemma spec_dispatch_None: "spec_dispatch args = None \<longleftrightarrow> is_plain args"
  by (simp add: spec_dispatch_cases is_plain_def)

lemma address_Monitor_first:
  "Monitor \<in> set args \<Longrightarrow> address me p args kwargs s = address me p [Monitor] kwargs s"
  by (simp add: address_def)

lemma address_Link_first:
  "Monitor \<notin> set args \<Longrightarrow> Link \<in> set args \<Longrightarrow>
   address me p args kwargs s = address me p [Link] kwargs s"
  by (simp add: address_def tokens_distinct)

lemma address_TrapLink_first:
  "Monitor \<notin> set args \<Longrightarrow> Link \<notin> set args \<Longrightarrow> TrapLink \<in> set args \<Longrightarrow>
   address me p args kwargs s = address me p [TrapLink] kwargs s"
  by (simp add: address_def tokens_distinct)

lemma address_ActorInfo_first:
  "Monitor \<notin> set args \<Longrightarrow> Link \<notin> set args \<Longrightarrow> TrapLink \<notin> set args \<Longrightarrow>
   ActorInfo \<in> set args \<Longrightarrow>
   address me p args kwargs s = address me p [ActorInfo] kwargs s"
  by (simp add: address_def tokens_distinct)

lemma address_KillerJoke_first:
  "Monitor \<notin> set args \<Longrightarrow> Link \<notin> set args \<Longrightarrow> TrapLink \<notin> set args \<Longrightarrow>
   ActorInfo \<notin> set args \<Longrightarrow> KillerJoke \<in> set args \<Longrightarrow>
   address me p args kwargs s = address me p [KillerJoke] kwargs s"
  by (simp add: address_def tokens_distinct)

lemma address_handles_one:
  assumes "spec_dispatch args = Some t"
  shows "address me p args kwargs s = address me p [t] kwargs s"
proof -
  consider (m) "Monitor \<in> set args" "t = Monitor"
    | (l) "Monitor \<notin> set args" "Link \<in> set args" "t = Link"
    | (tl) "Monitor \<notin> set args" "Link \<notin> set args" "TrapLink \<in> set args" "t = TrapLink"
    | (ai) "Monitor \<notin> set args" "Link \<notin> set args" "TrapLink \<notin> set args"
        "ActorInfo \<in> set args" "t = ActorInfo"
    | (kj) "Monitor \<notin> set args" "Link \<notin> set args" "TrapLink \<notin> set args"
        "ActorInfo \<notin> set args" "KillerJoke \<in> set args" "t = KillerJoke"
    using assms unfolding spec_dispatch_cases by (auto split: if_splits)
  then show ?thesis
  proof cases
    case m
    show ?thesis unfolding m(2) using m(1) by (rule address_Monitor_first)
  next
    case l
    show ?thesis unfolding l(3) using l(1,2) by (rule address_Link_first)
  next
    case tl
    show ?thesis unfolding tl(4) using tl(1,2,3) by (rule address_TrapLink_first)
  next
    case ai
    show ?thesis unfolding ai(5) using ai(1,2,3,4) by (rule address_ActorInfo_first)
  next
    case kj
    show ?thesis unfolding kj(6) using kj(1,2,3,4,5) by (rule address_KillerJoke_first)
  qed
qed

lemma address_returns:
  "fst (address me p args kwargs s) = Inr r \<Longrightarrow>
   r = (if spec_dispatch args = Some ActorInfo then RetInfo (actor_info_of (actors s p))
        else RetAddress p)"
  by (auto simp: spec_dispatch_cases address_def tokens_distinct tokens_distinct [symmetric]
      split: if_splits option.splits)

text \<open>
  C8. A call handles at most one control token, the first of Monitor, Link, TrapLink,
  ActorInfo, KillerJoke that occurs in \<open>args\<close>: it does what the call with that token
  alone does. Without a token it is an ordinary send. The value a call returns is
  the address itself, except when the token handled is ActorInfo, where it is the
  info tuple.
\<close>

theorem address_dispatch:
  "(\<forall>t. spec_dispatch args = Some t \<longrightarrow>
        address me p args kwargs s = address me p [t] kwargs s) \<and>
   (spec_dispatch args = None \<longrightarrow>
      address me p args kwargs s =
        (if length (mailbox (actors s p)) < 1024
         then (Inr (RetAddress p),
               upd_actor p (\<lambda>a. a\<lparr>mailbox := mailbox a @ [(0, args, kwargs)]\<rparr>) s)
         else (Inl UndeliveredMessage, s))) \<and>
   (\<forall>r. fst (address me p args kwargs s) = Inr r \<longrightarrow>
        r = (if spec_dispatch args = Some ActorInfo
             then RetInfo (actor_info_of (actors s p)) else RetAddress p))"
proof (intro conjI allI impI)
  fix t assume "spec_dispatch args = Some t"
  then show "address me p args kwargs s = address me p [t] kwargs s"
    by (rule address_handles_one)
next
  assume "spec_dispatch args = None"
  then have "is_plain args" by (simp add: spec_dispatch_None)
  then show "address me p args kwargs s =
        (if length (mailbox (actors s p)) < 1024
         then (Inr (RetAddress p),
               upd_actor p (\<lambda>a. a\<lparr>mailbox := mailbox a @ [(0, args, kwargs)]\<rparr>) s)
         else (Inl UndeliveredMessage, s))"
    by (rule address_plain)
next
  fix r assume "fst (address me p args kwargs s) = Inr r"
  then show "r = (if spec_dispatch args = Some ActorInfo
             then RetInfo (actor_info_of (actors s p)) else RetAddress p)"
    by (rule address_returns)
qed

lemma dispatch_example:
  "spec_dispatch [KillerJoke, IntV 3, ActorInfo :: nat val] = Some ActorInfo"
  by (simp add: spec_dispatch_def Monitor_def Link_def TrapLink_def ActorInfo_def KillerJoke_def)

lemma dispatch_plain_example: "spec_dispatch [IntV 1, StrV ''hello'' :: nat val] = None"
  by (simp add: spec_dispatch_None is_plain_example)

lemma one_actor_mailbox: "mailbox (actors one_actor 0) = [(0, [IntV 1], [])]"
  by code_simp

lemma one_actor_info:
  "fst (address None 0 [ActorInfo] [] one_actor) = Inr (RetInfo (actor_info_of (actors one_actor 0)))"
  by (simp add: address_def tokens_distinct tokens_distinct [symmetric])

theorem address_dispatch_witness:
  "spec_dispatch [KillerJoke, IntV 3, ActorInfo :: nat val] = Some ActorInfo \<and>
   address None 0 [KillerJoke, IntV 3, ActorInfo] [] one_actor
     = address None 0 [ActorInfo] [] one_actor \<and>
   fst (address None 0 [KillerJoke, IntV 3, ActorInfo] [] one_actor)
     = Inr (RetInfo (actor_info_of (actors one_actor 0))) \<and>
   spec_dispatch [IntV 1, StrV ''hello'' :: nat val] = None \<and>
   address None 0 [IntV 1, StrV ''hello''] [] one_actor =
     (Inr (RetAddress 0),
      upd_actor 0 (\<lambda>a. a\<lparr>mailbox := mailbox a @ [(0, [IntV 1, StrV ''hello''], [])]\<rparr>)
        one_actor)"
proof -
  have 1: "address None 0 [KillerJoke, IntV 3, ActorInfo] [] one_actor
      = address None 0 [ActorInfo] [] one_actor"
    by (rule address_dispatch [THEN conjunct1, rule_format, OF dispatch_example])
  have 2: "fst (address None 0 [KillerJoke, IntV 3, ActorInfo] [] one_actor)
      = Inr (RetInfo (actor_info_of (actors one_actor 0)))"
    unfolding 1 by (rule one_actor_info)
  have "address None 0 [IntV 1, StrV ''hello''] [] one_actor =
      (if length (mailbox (actors one_actor 0)) < 1024
       then (Inr (RetAddress 0),
             upd_actor 0 (\<lambda>a. a\<lparr>mailbox := mailbox a @ [(0, [IntV 1, StrV ''hello''], [])]\<rparr>)
               one_actor)
       else (Inl UndeliveredMessage, one_actor))"
    by (rule address_dispatch [THEN conjunct2, THEN conjunct1, rule_format,
          OF dispatch_plain_example])
  then have 3: "address None 0 [IntV 1, StrV ''hello''] [] one_actor =
     (Inr (RetAddress 0),
      upd_actor 0 (\<lambda>a. a\<lparr>mailbox := mailbox a @ [(0, [IntV 1, StrV ''hello''], [])]\<rparr>)
        one_actor)"
    by (simp only: one_actor_mailbox) simp
  show ?thesis
    by (intro conjI dispatch_example 1 2 dispatch_plain_example 3)
qed

subsection \<open>The throw of a kill\<close>

lemma is_kill_KillerJoke: "is_kill [KillerJoke]"
  by (simp add: is_kill_def tokens_distinct tokens_distinct [symmetric])

lemma address_kill:
  "is_kill args \<Longrightarrow>
   address me p args kwargs s =
     (if me = Some p \<and> proc (actors s p) = Running then Inl Killed else Inr (RetAddress p),
      proc_kill me p Killed s)"
  by (simp add: is_kill_def address_def)

lemma kill_eq:
  "kill me a s =
     (if me = Some a \<and> proc (actors s a) = Running then Inl Killed else Inr (RetAddress a),
      proc_kill me a Killed s)"
  unfolding kill_def by (rule address_kill [OF is_kill_KillerJoke])

lemma exec_Hub_Nil: "pending s = [] \<Longrightarrow> exec P Hub s = s"
  by simp

lemma exec_Hub_Throw:
  "pending s = Throw t e w # hs \<Longrightarrow>
   exec P Hub s = resume w (throw_into t e (s\<lparr>pending := hs\<rparr>))"
  by simp

lemma exec_Hub_Notify:
  "pending s = Notify p # hs \<Longrightarrow> exec P Hub s = notify_links p (s\<lparr>pending := hs\<rparr>)"
  by simp

lemma settle_Raise_proc:
  "e \<noteq> TypeError \<Longrightarrow> settle t m (Raise e) s = finish t (Some e) s"
  by (cases m) simp

lemma throw_into_proc:
  "e \<noteq> TypeError \<Longrightarrow> proc (actors s t) = Running
    \<Longrightarrow> proc (actors (throw_into t e s) t) = Done (Some e)"
  by (auto simp: throw_into_def settle_Raise_proc finish_proc split: option.splits)

lemma throw_into_mailbox:
  "e \<noteq> TypeError \<Longrightarrow> mailbox (actors (throw_into t e s) q) = mailbox (actors s q)"
  by (auto simp: throw_into_def settle_Raise_proc split: option.splits)

lemma actor_info_eq:
  "actor_info me a s = (Inr (RetInfo (actor_info_of (actors s a))), s)"
  by (simp add: actor_info_def address_def tokens_distinct tokens_distinct [symmetric])

subsection \<open>Calls on the address of a terminated actor\<close>

lemma one_actor_running: "proc (actors one_actor 0) = Running"
  by code_simp

lemma one_actor_pending: "pending one_actor = []"
  by code_simp

lemma killed_actor_unfold:
  "killed_actor = throw_into 0 Killed ((proc_kill None 0 Killed one_actor)\<lparr>pending := []\<rparr>)"
  unfolding killed_actor_def
  by (simp add: kill_eq proc_kill_pending one_actor_running one_actor_pending resume_def)

lemma killed_actor_dead: "proc (actors killed_actor 0) = Done (Some Killed)"
  unfolding killed_actor_unfold by (rule throw_into_proc) (simp_all add: one_actor_running)

lemma killed_actor_mailbox: "mailbox (actors killed_actor 0) = [(0, [IntV 1], [])]"
  unfolding killed_actor_unfold by (simp add: throw_into_mailbox one_actor_mailbox)

lemma full_box_running: "proc (actors full_box 0) = Running"
  by (simp add: full_box_def one_actor_running)

lemma full_box_length: "length (mailbox (actors full_box 0)) = 1024"
  by (simp add: full_box_def)

lemma full_box_pending: "pending full_box = []"
  by (simp add: full_box_def one_actor_pending)

lemma dead_full_box_unfold:
  "dead_full_box = throw_into 0 Killed ((proc_kill None 0 Killed full_box)\<lparr>pending := []\<rparr>)"
  unfolding dead_full_box_def
  by (simp add: kill_eq proc_kill_pending full_box_running full_box_pending resume_def)

lemma dead_full_box_dead: "proc (actors dead_full_box 0) = Done (Some Killed)"
  unfolding dead_full_box_unfold by (rule throw_into_proc) (simp_all add: full_box_running)

lemma dead_full_box_length: "length (mailbox (actors dead_full_box 0)) = 1024"
  unfolding dead_full_box_unfold by (simp add: throw_into_mailbox full_box_length)

text \<open>
  C6. \<open>address\<close> never looks at the greenlet before it puts a message: a call on the
  address of an actor that has ended is not ignored, as the docstring of \<open>address\<close>
  says it is. Actor 0 was killed with one message in its mailbox. An ordinary send
  to it returns the address and appends the message to the mailbox, so that
  \<open>actor_info\<close> reports a mailbox size of 2 where it was 1; nothing takes the message
  out again. When the dead actor's mailbox holds 1024 messages, the send raises
  \<open>UndeliveredMessage\<close> in the caller.
\<close>

theorem dead_letter_queued:
  "proc (actors killed_actor 0) = Done (Some Killed) \<and>
   mailbox (actors killed_actor 0) = [(0, [IntV 1], [])] \<and>
   address None 0 [IntV 2] [] killed_actor =
     (Inr (RetAddress 0),
      upd_actor 0 (\<lambda>a. a\<lparr>mailbox := [(0, [IntV 1], []), (0, [IntV 2], [])]\<rparr>) killed_actor) \<and>
   snd (address None 0 [IntV 2] [] killed_actor) \<noteq> killed_actor \<and>
   (\<exists>i. fst (actor_info None 0 killed_actor) = Inr (RetInfo i) \<and> mailbox_size i = 1) \<and>
   (\<exists>i. fst (actor_info None 0 (snd (address None 0 [IntV 2] [] killed_actor)))
          = Inr (RetInfo i) \<and> mailbox_size i = 2) \<and>
   mailbox (actors (run repeater [Step 0, Hub, Timer, Step 0]
       (snd (address None 0 [IntV 2] [] killed_actor))) 0)
     = [(0, [IntV 1], []), (0, [IntV 2], [])] \<and>
   proc (actors dead_full_box 0) = Done (Some Killed) \<and>
   address None 0 [IntV 2] [] dead_full_box = (Inl UndeliveredMessage, dead_full_box)"
proof -
  have pl: "is_plain [IntV 2 :: nat val]"
    by (simp add: is_plain_def Monitor_def Link_def TrapLink_def ActorInfo_def KillerJoke_def)
  have 1: "address None 0 [IntV 2] [] killed_actor =
     (Inr (RetAddress 0),
      upd_actor 0 (\<lambda>a. a\<lparr>mailbox := [(0, [IntV 1], []), (0, [IntV 2], [])]\<rparr>) killed_actor)"
    by (simp add: address_plain [OF pl] killed_actor_mailbox)
  have 2: "snd (address None 0 [IntV 2] [] killed_actor) \<noteq> killed_actor"
  proof
    assume "snd (address None 0 [IntV 2] [] killed_actor) = killed_actor"
    then have "mailbox (actors (snd (address None 0 [IntV 2] [] killed_actor)) 0)
      = mailbox (actors killed_actor 0)" by simp
    then show False by (simp add: 1 killed_actor_mailbox)
  qed
  have 3: "\<exists>i. fst (actor_info None 0 killed_actor) = Inr (RetInfo i) \<and> mailbox_size i = 1"
    by (simp add: actor_info_eq actor_info_of_def killed_actor_mailbox)
  have 4: "\<exists>i. fst (actor_info None 0 (snd (address None 0 [IntV 2] [] killed_actor)))
          = Inr (RetInfo i) \<and> mailbox_size i = 2"
    by (simp add: 1 actor_info_eq actor_info_of_def)
  have 5: "mailbox (actors (run repeater [Step 0, Hub, Timer, Step 0]
       (snd (address None 0 [IntV 2] [] killed_actor))) 0)
     = [(0, [IntV 1], []), (0, [IntV 2], [])]"
    by code_simp
  have 6: "address None 0 [IntV 2] [] dead_full_box = (Inl UndeliveredMessage, dead_full_box)"
    by (simp add: address_plain [OF pl] dead_full_box_length)
  show ?thesis
    by (intro conjI killed_actor_dead killed_actor_mailbox 1 2 3 4 5 dead_full_box_dead 6)
qed

subsection \<open>Killing an actor\<close>













end
